theory Spec2Isabelle
  imports Main
begin

section \<open>The S3 bucket scanner: data model\<close>

text \<open>
  The scanner (\<^verbatim>\<open>s3xist_scanner.py\<close>) reads bucket names from a wordlist, probes each
  one with \<^verbatim>\<open>head_bucket\<close>, optionally lists the first objects of the buckets it
  found and appends the findings to an output file. Python strings are modelled as
  \<^typ>\<open>string\<close>, restricted to the code points below 256.

  Exceptions are values. \<open>ClientError code msg\<close> is botocore's \<^verbatim>\<open>ClientError\<close>:
  \<open>code\<close> is what \<^verbatim>\<open>e.response.get("Error", {}).get("Code")\<close> evaluates to (\<open>None\<close> when
  the key is missing) and \<open>msg\<close> is \<^verbatim>\<open>str(e)\<close>. \<open>OtherException msg\<close> is any other
  subclass of \<^verbatim>\<open>Exception\<close> raised by a client call, \<open>OSError\<close> is what \<^verbatim>\<open>open\<close>
  raises when the output file cannot be opened, and \<open>ValueError\<close> is what
  \<^verbatim>\<open>Queue.task_done\<close> raises when it is called too often.
\<close>

datatype exn =
    ClientError "string option" string
  | OtherException string
  | OSError string
  | ValueError string

text \<open>
  The boto3 client is an opaque capability. \<open>head_bucket c b\<close> is the outcome of
  \<^verbatim>\<open>s3_client.head_bucket(Bucket=b)\<close>: it returns or raises.
  \<open>list_objects_v2 c b k\<close> is the outcome of
  \<^verbatim>\<open>s3_client.list_objects_v2(Bucket=b, MaxKeys=k)\<close>: it raises, or it returns a response
  that either has no \<^verbatim>\<open>'Contents'\<close> entry (\<open>None\<close>) or has one, given by the
  \<^verbatim>\<open>'Key'\<close> of each of its objects in order.
\<close>

record client =
  head_bucket :: "string \<Rightarrow> exn + unit"
  list_objects_v2 :: "string \<Rightarrow> nat \<Rightarrow> exn + string list option"

text \<open>
  What the program shows the operator: the calls of \<^verbatim>\<open>print\<close> and of \<^verbatim>\<open>logging\<close>, one
  constructor per call site (the colour codes and the padding are left out).
\<close>

datatype event =
    Print_found string
  | Print_objects_found
  | Print_object string
  | Print_bucket_empty
  | Print_access_denied
  | Print_error string
  | Log_warning_client_error string string
  | Log_error_critical string string
  | Log_warning_list string string
  | Log_error_list string string
  | Log_error_wordlist_missing
  | Log_error_setup
  | Log_info_complete

section \<open>The classifier\<close>

text \<open>
  \<^verbatim>\<open>check_bucket_existence\<close> (lines 24 to 49). The result is the status string together
  with what was logged.
\<close>

definition check_bucket_existence :: "client \<Rightarrow> string \<Rightarrow> string \<times> event list" where
  "check_bucket_existence s3_client bucket_name =
     (case head_bucket s3_client bucket_name of
        Inr _ \<Rightarrow> (''FOUND'', [])
      | Inl (ClientError error_code e) \<Rightarrow>
          (if error_code = Some ''403'' then (''FOUND'', [])
           else if error_code = Some ''404'' then (''NOT_FOUND'', [])
           else (''ERROR'', [Log_warning_client_error bucket_name e]))
      | Inl (OtherException e) \<Rightarrow> (''ERROR'', [Log_error_critical bucket_name e])
      | Inl (OSError e) \<Rightarrow> (''ERROR'', [Log_error_critical bucket_name e])
      | Inl (ValueError e) \<Rightarrow> (''ERROR'', [Log_error_critical bucket_name e]))"

section \<open>The listing\<close>

text \<open>
  \<^verbatim>\<open>list_bucket_contents\<close> (lines 51 to 73). The result is the returned value
  (\<open>None\<close> for Python's \<^verbatim>\<open>None\<close>) together with what was printed and logged.
\<close>

definition list_bucket_contents :: "client \<Rightarrow> string \<Rightarrow> string list option \<times> event list" where
  "list_bucket_contents s3_client bucket_name =
     (case list_objects_v2 s3_client bucket_name 10 of
        Inr (Some contents) \<Rightarrow>
          (Some contents, Print_objects_found # map Print_object contents)
      | Inr None \<Rightarrow> (Some [], [Print_bucket_empty])
      | Inl (ClientError code e) \<Rightarrow>
          (None, if code = Some ''AccessDenied'' then [Print_access_denied]
                 else [Log_warning_list bucket_name e])
      | Inl (OtherException e) \<Rightarrow> (None, [Log_error_list bucket_name e])
      | Inl (OSError e) \<Rightarrow> (None, [Log_error_list bucket_name e])
      | Inl (ValueError e) \<Rightarrow> (None, [Log_error_list bucket_name e]))"

text \<open>
  The service's side of \<^verbatim>\<open>MaxKeys\<close>: a response never carries more objects than the
  request allowed.
\<close>

definition honours_max_keys :: "client \<Rightarrow> bool" where
  "honours_max_keys s3_client \<longleftrightarrow>
     (\<forall>b k contents. list_objects_v2 s3_client b k = Inr (Some contents) \<longrightarrow> length contents \<le> k)"

section \<open>The worker's treatment of one candidate\<close>

text \<open>
  The configuration of a run: the parsed arguments, the remote service as every worker's
  client sees it, the wordlist file, whether \<^verbatim>\<open>open(output_file, 'a')\<close> succeeds
  (\<open>output_openable\<close>) and whether the opened file takes what is written to it
  (\<open>output_writable\<close>; a full device does not).
  A wordlist is missing (\<^verbatim>\<open>FileNotFoundError\<close>), or it yields all its lines, or it
  yields some lines and then raises another exception.
\<close>

datatype wordlist = Wl_missing | Wl_lines "string list" | Wl_broken "string list"

record config =
  threads :: int
  wordlist_file :: wordlist
  should_list_objects :: bool
  output_file :: "string option"
  s3 :: client
  output_openable :: bool
  output_writable :: bool

text \<open>Python's truth value of \<^verbatim>\<open>output_file\<close> and of \<^verbatim>\<open>found_objects\<close>.\<close>

definition truthy_str :: "string option \<Rightarrow> bool" where
  "truthy_str x = (case x of None \<Rightarrow> False | Some s \<Rightarrow> s \<noteq> [])"

definition truthy_list :: "'a list option \<Rightarrow> bool" where
  "truthy_list x = (case x of None \<Rightarrow> False | Some xs \<Rightarrow> xs \<noteq> [])"

text \<open>
  Lines 86 to 93 and 103 to 104: the probe, the report on the terminal and the listing.
  The result is the status, \<^verbatim>\<open>found_objects\<close> and the output produced.
\<close>

definition examine :: "config \<Rightarrow> string \<Rightarrow> string \<times> string list option \<times> event list" where
  "examine cfg bucket_name =
     (let (status, evs) = check_bucket_existence (s3 cfg) bucket_name in
      if status = ''FOUND'' then
        (let (found_objects, evs') =
               (if should_list_objects cfg then list_bucket_contents (s3 cfg) bucket_name
                else (None, []))
         in (status, found_objects, evs @ [Print_found bucket_name] @ evs'))
      else if status = ''ERROR'' then (status, None, evs @ [Print_error bucket_name])
      else (status, None, evs))"

text \<open>
  Lines 98 to 101: the strings passed to \<^verbatim>\<open>f.write\<close>, in order.
\<close>

definition sink_lines :: "string \<Rightarrow> string list option \<Rightarrow> string list" where
  "sink_lines bucket_name found_objects =
     (''Bucket: '' @ bucket_name @ [CHR 0x0A]) #
     (if truthy_list found_objects
      then (case found_objects of
              None \<Rightarrow> []
            | Some keys \<Rightarrow> map (\<lambda>obj_key. ''  - Object: '' @ obj_key @ [CHR 0x0A]) keys)
      else [])"

text \<open>
  Lines 96 to 101, run without interruption: the new content of the output file, or
  the exception of \<^verbatim>\<open>open\<close>, or the exception of \<^verbatim>\<open>f.write\<close> and of the close at the
  end of the \<^verbatim>\<open>with\<close> block when the file does not take the data. None of the three is
  inside a \<^verbatim>\<open>try\<close>.
\<close>

definition append_result :: "config \<Rightarrow> string \<Rightarrow> string list option \<Rightarrow> string \<Rightarrow> exn + string" where
  "append_result cfg bucket_name found_objects content =
     (if \<not> output_openable cfg
      then Inl (OSError (case output_file cfg of None \<Rightarrow> [] | Some path \<Rightarrow> path))
      else if \<not> output_writable cfg
      then Inl (OSError ''No space left on device'')
      else Inr (content @ concat (sink_lines bucket_name found_objects)))"

text \<open>
  \<^verbatim>\<open>Queue.task_done\<close> on the counter of unfinished tasks.
\<close>

definition task_done :: "nat \<Rightarrow> exn + nat" where
  "task_done unfinished =
     (if unfinished = 0 then Inl (ValueError ''task_done() called too many times'')
      else Inr (unfinished - 1))"

text \<open>
  What one worker shares with the others: the terminal and the log, the output file's
  content and the queue's counter of unfinished tasks.
\<close>

record shared =
  terminal :: "event list"
  sink :: string
  unfinished :: nat

text \<open>
  The body of the worker's loop for a dequeued bucket name (lines 86 to 106), run
  without interruption. \<open>Inr\<close> is the state after \<^verbatim>\<open>q.task_done()\<close>; \<open>Inl\<close> is an
  exception that leaves the loop, and the thread, before that call.
\<close>

definition worker_item :: "config \<Rightarrow> string \<Rightarrow> shared \<Rightarrow> exn + shared" where
  "worker_item cfg bucket_name sh =
     (let (status, found_objects, evs) = examine cfg bucket_name;
          sh1 = sh\<lparr>terminal := terminal sh @ evs\<rparr>
      in case (if status = ''FOUND'' \<and> truthy_str (output_file cfg)
               then append_result cfg bucket_name found_objects (sink sh1)
               else Inr (sink sh1)) of
           Inl e \<Rightarrow> Inl e
         | Inr content \<Rightarrow>
             (case task_done (unfinished sh1) of
                Inl e \<Rightarrow> Inl e
              | Inr n \<Rightarrow> Inr (sh1\<lparr>sink := content, unfinished := n\<rparr>)))"

section \<open>Reading the wordlist\<close>

text \<open>
  \<^verbatim>\<open>str.isspace\<close> on the code points below 256, and \<^verbatim>\<open>str.strip()\<close>.
\<close>

definition isspace :: "char \<Rightarrow> bool" where
  "isspace c \<longleftrightarrow> (of_char c :: nat) \<in> {9, 10, 11, 12, 13, 28, 29, 30, 31, 32, 133, 160}"

definition strip :: "string \<Rightarrow> string" where
  "strip s = rev (dropWhile isspace (rev (dropWhile isspace s)))"

text \<open>
  Lines 133 to 136: the loop over the lines of the wordlist, on the queue's items
  (\<open>None\<close> is the sentinel).
\<close>

fun enqueue_wordlist :: "string list \<Rightarrow> string option list \<Rightarrow> string option list" where
  "enqueue_wordlist [] q = q"
| "enqueue_wordlist (line # rest) q =
     (let bucket_name = strip line in
      if bucket_name \<noteq> [] then enqueue_wordlist rest (q @ [Some bucket_name])
      else enqueue_wordlist rest q)"

text \<open>The bucket names that a wordlist's lines give, in order.\<close>

definition candidates :: "string list \<Rightarrow> string list" where
  "candidates ls = filter (\<lambda>bucket_name. bucket_name \<noteq> []) (map strip ls)"

section \<open>The coordinator and the workers, interleaved\<close>

text \<open>
  The threads run interleaved, one atomic action at a time. The coordinator is \<^verbatim>\<open>main\<close>
  from line 131 on, after it has started the workers; each worker is the loop of
  \<^verbatim>\<open>worker\<close> (lines 81 to 106) with its own client.

  A worker is about to call \<^verbatim>\<open>q.get()\<close> (\<open>W_get\<close>), holds a dequeued name
  (\<open>W_got\<close>, line 86), waits for the lock (\<open>W_lock\<close>, line 96), holds the lock and is
  about to open the output file (\<open>W_open\<close>, line 97), has the file open and has made the
  first \<open>n\<close> calls of \<^verbatim>\<open>f.write\<close> (\<open>W_write\<close>, lines 98 to 101), is about to call
  \<^verbatim>\<open>q.task_done()\<close> (\<open>W_ack\<close>, line 106), has left the loop through \<^verbatim>\<open>break\<close>
  (\<open>W_exited\<close>, line 84) or has died of an exception (\<open>W_crashed\<close>).
\<close>

datatype wstate =
    W_get
  | W_got string
  | W_lock string "string list option"
  | W_open string "string list option"
  | W_write string "string list option" nat
  | W_ack string
  | W_exited
  | W_crashed exn

text \<open>
  The coordinator reads the remaining lines of the wordlist (\<open>C_read\<close>, lines 133 to
  136), waits in \<^verbatim>\<open>q.join()\<close> (\<open>C_join\<close>, line 138), has \<open>k\<close> sentinels left to put
  (\<open>C_sentinels\<close>, lines 145 and 146), waits for the threads (\<open>C_join_threads\<close>, lines 147
  and 148) or is done.
\<close>

datatype coord =
    C_read "string list"
  | C_join
  | C_sentinels nat
  | C_join_threads
  | C_finished

text \<open>
  The history of a run records the calls on the queue, on the lock and on the output
  file, each with the worker that made it.
\<close>

datatype action =
    Put "string option"
  | Join_returned
  | Get nat "string option"
  | Task_done nat
  | Acquire nat
  | Release nat
  | Write nat string

record system = shared +
  coord :: coord
  queue :: "string option list"
  workers :: "wstate list"
  lock :: "nat option"
  hist :: "action list"

definition init :: "config \<Rightarrow> string \<Rightarrow> system" where
  "init cfg content =
     \<lparr>terminal = [], sink = content, unfinished = 0,
      coord = C_read (case wordlist_file cfg of
                        Wl_missing \<Rightarrow> [] | Wl_lines ls \<Rightarrow> ls | Wl_broken ls \<Rightarrow> ls),
      queue = [],
      workers = replicate (nat (threads cfg)) W_get,
      lock = None,
      hist = []\<rparr>"

definition terminated :: "wstate \<Rightarrow> bool" where
  "terminated w = (case w of W_exited \<Rightarrow> True | W_crashed _ \<Rightarrow> True | _ \<Rightarrow> False)"

text \<open>
  One action of the coordinator (lines 131 to 153). A blocked call leaves the state as
  it is. \<^verbatim>\<open>Queue.put\<close> appends the item and counts it as unfinished; \<^verbatim>\<open>Queue.join\<close>
  returns when no task is unfinished.
\<close>

definition main_step :: "config \<Rightarrow> system \<Rightarrow> system" where
  "main_step cfg s =
     (case coord s of
        C_read [] \<Rightarrow>
          (case wordlist_file cfg of
             Wl_lines _ \<Rightarrow> s\<lparr>coord := C_join\<rparr>
           | Wl_missing \<Rightarrow>
               s\<lparr>terminal := terminal s @ [Log_error_wordlist_missing],
                 coord := C_sentinels (nat (threads cfg))\<rparr>
           | Wl_broken _ \<Rightarrow>
               s\<lparr>terminal := terminal s @ [Log_error_setup],
                 coord := C_sentinels (nat (threads cfg))\<rparr>)
      | C_read (line # rest) \<Rightarrow>
          (let bucket_name = strip line in
           if bucket_name \<noteq> []
           then s\<lparr>unfinished := unfinished s + 1, coord := C_read rest,
                  queue := queue s @ [Some bucket_name],
                  hist := hist s @ [Put (Some bucket_name)]\<rparr>
           else s\<lparr>coord := C_read rest\<rparr>)
      | C_join \<Rightarrow>
          (if unfinished s = 0
           then s\<lparr>coord := C_sentinels (nat (threads cfg)), hist := hist s @ [Join_returned]\<rparr>
           else s)
      | C_sentinels 0 \<Rightarrow> s\<lparr>coord := C_join_threads\<rparr>
      | C_sentinels (Suc k) \<Rightarrow>
          s\<lparr>unfinished := unfinished s + 1, coord := C_sentinels k,
            queue := queue s @ [None], hist := hist s @ [Put None]\<rparr>
      | C_join_threads \<Rightarrow>
          (if list_all terminated (workers s)
           then s\<lparr>terminal := terminal s @ [Log_info_complete], coord := C_finished\<rparr>
           else s)
      | C_finished \<Rightarrow> s)"

text \<open>
  One action of worker \<open>i\<close> (lines 81 to 106). \<^verbatim>\<open>q.get()\<close> blocks on an empty queue
  and \<^verbatim>\<open>with lock\<close> blocks while another worker holds the lock. An exception of
  \<^verbatim>\<open>open\<close> leaves the \<^verbatim>\<open>with lock\<close> block, which releases the lock, and ends the thread;
  so does the exception of a file that does not take the data, which the model raises at
  the first \<^verbatim>\<open>f.write\<close>, before anything has reached the file.
  Leaving the two \<^verbatim>\<open>with\<close> blocks normally closes the file and releases the lock.
\<close>

definition worker_step :: "config \<Rightarrow> nat \<Rightarrow> system \<Rightarrow> system" where
  "worker_step cfg i s =
     (case workers s ! i of
        W_get \<Rightarrow>
          (case queue s of
             [] \<Rightarrow> s
           | None # q \<Rightarrow>
               s\<lparr>queue := q, workers := (workers s)[i := W_exited],
                 hist := hist s @ [Get i None]\<rparr>
           | Some bucket_name # q \<Rightarrow>
               s\<lparr>queue := q, workers := (workers s)[i := W_got bucket_name],
                 hist := hist s @ [Get i (Some bucket_name)]\<rparr>)
      | W_got bucket_name \<Rightarrow>
          (let (status, found_objects, evs) = examine cfg bucket_name in
           s\<lparr>terminal := terminal s @ evs,
             workers := (workers s)
               [i := if status = ''FOUND'' \<and> truthy_str (output_file cfg)
                     then W_lock bucket_name found_objects else W_ack bucket_name]\<rparr>)
      | W_lock bucket_name found_objects \<Rightarrow>
          (if lock s = None
           then s\<lparr>workers := (workers s)[i := W_open bucket_name found_objects],
                  lock := Some i, hist := hist s @ [Acquire i]\<rparr>
           else s)
      | W_open bucket_name found_objects \<Rightarrow>
          (if output_openable cfg
           then s\<lparr>workers := (workers s)[i := W_write bucket_name found_objects 0]\<rparr>
           else s\<lparr>workers := (workers s)
                    [i := W_crashed (OSError (case output_file cfg of
                                                None \<Rightarrow> [] | Some path \<Rightarrow> path))],
                  lock := None, hist := hist s @ [Release i]\<rparr>)
      | W_write bucket_name found_objects n \<Rightarrow>
          (if \<not> output_writable cfg
           then s\<lparr>workers := (workers s)[i := W_crashed (OSError ''No space left on device'')],
                  lock := None, hist := hist s @ [Release i]\<rparr>
           else if n < length (sink_lines bucket_name found_objects)
           then s\<lparr>sink := sink s @ sink_lines bucket_name found_objects ! n,
                  workers := (workers s)[i := W_write bucket_name found_objects (Suc n)],
                  hist := hist s @ [Write i (sink_lines bucket_name found_objects ! n)]\<rparr>
           else s\<lparr>workers := (workers s)[i := W_ack bucket_name],
                  lock := None, hist := hist s @ [Release i]\<rparr>)
      | W_ack bucket_name \<Rightarrow>
          (case task_done (unfinished s) of
             Inl e \<Rightarrow> s\<lparr>workers := (workers s)[i := W_crashed e]\<rparr>
           | Inr n \<Rightarrow>
               s\<lparr>unfinished := n, workers := (workers s)[i := W_get],
                 hist := hist s @ [Task_done i]\<rparr>)
      | W_exited \<Rightarrow> s
      | W_crashed e \<Rightarrow> s)"

text \<open>
  A schedule names the thread that acts next; a run follows a schedule from a state.
  The states a program can be in are those that some schedule reaches from \<open>init\<close>.
\<close>

datatype thread = Coordinator | Worker nat

definition step :: "config \<Rightarrow> thread \<Rightarrow> system \<Rightarrow> system" where
  "step cfg t s =
     (case t of
        Coordinator \<Rightarrow> main_step cfg s
      | Worker i \<Rightarrow> if i < length (workers s) then worker_step cfg i s else s)"

fun run :: "config \<Rightarrow> thread list \<Rightarrow> system \<Rightarrow> system" where
  "run cfg [] s = s"
| "run cfg (t # ts) s = run cfg ts (step cfg t s)"

text \<open>Projections of a history.\<close>

definition put_names :: "action list \<Rightarrow> string list" where
  "put_names h = concat (map (\<lambda>a. case a of Put (Some b) \<Rightarrow> [b] | _ \<Rightarrow> []) h)"

definition sentinels_put :: "action list \<Rightarrow> nat" where
  "sentinels_put h = length (filter (\<lambda>a. a = Put None) h)"

definition acks :: "action list \<Rightarrow> nat" where
  "acks h = length (filter (\<lambda>a. case a of Task_done _ \<Rightarrow> True | _ \<Rightarrow> False) h)"

definition sentinels_got :: "nat \<Rightarrow> action list \<Rightarrow> nat" where
  "sentinels_got i h = length (filter (\<lambda>a. a = Get i None) h)"

definition actor :: "action \<Rightarrow> nat option" where
  "actor a =
     (case a of
        Put _ \<Rightarrow> None | Join_returned \<Rightarrow> None
      | Get i _ \<Rightarrow> Some i | Task_done i \<Rightarrow> Some i
      | Acquire i \<Rightarrow> Some i | Release i \<Rightarrow> Some i | Write i _ \<Rightarrow> Some i)"

definition writes :: "action list \<Rightarrow> (nat \<times> string) list" where
  "writes h = concat (map (\<lambda>a. case a of Write i chunk \<Rightarrow> [(i, chunk)] | _ \<Rightarrow> []) h)"

text \<open>
  The calls of \<^verbatim>\<open>f.write\<close> that one pass of worker \<open>i\<close> through lines 96 to 101 makes
  for a bucket and its listing.
\<close>

definition block :: "nat \<times> string \<times> string list option \<Rightarrow> (nat \<times> string) list" where
  "block r = (case r of (i, bucket_name, found_objects) \<Rightarrow>
                map (Pair i) (sink_lines bucket_name found_objects))"

definition in_critical :: "wstate \<Rightarrow> bool" where
  "in_critical w = (case w of W_open _ _ \<Rightarrow> True | W_write _ _ _ \<Rightarrow> True | _ \<Rightarrow> False)"

text \<open>
  The calls of \<^verbatim>\<open>f.write\<close> that the holder of the lock has made since it opened the file.
\<close>

definition pending :: "nat option \<Rightarrow> wstate list \<Rightarrow> (nat \<times> string) list" where
  "pending l ws =
     (case l of
        None \<Rightarrow> []
      | Some j \<Rightarrow>
          (case ws ! j of
             W_write bucket_name found_objects n \<Rightarrow>
               map (Pair j) (take n (sink_lines bucket_name found_objects))
           | _ \<Rightarrow> []))"

text \<open>
  The lock is held by exactly the worker that is between \<^verbatim>\<open>with lock\<close> and the end of the
  \<^verbatim>\<open>with\<close> blocks; the writes so far are whole blocks followed by what the holder of the
  lock has written; the file holds its first content and then the writes.
\<close>

definition lock_inv :: "system \<Rightarrow> bool" where
  "lock_inv s \<longleftrightarrow>
     (\<forall>i<length (workers s). in_critical (workers s ! i) \<longleftrightarrow> lock s = Some i) \<and>
     (\<forall>j. lock s = Some j \<longrightarrow> j < length (workers s))"

definition write_inv :: "config \<Rightarrow> string \<Rightarrow> system \<Rightarrow> bool" where
  "write_inv cfg content s \<longleftrightarrow>
     (\<exists>sessions. writes (hist s) = concat (map block sessions) @ pending (lock s) (workers s)) \<and>
     sink s = content @ concat (map snd (writes (hist s))) \<and>
     (output_writable cfg \<or> pending (lock s) (workers s) = [])"

section \<open>Example configurations\<close>

text \<open>
  A remote service with two buckets open to the caller (one with twelve objects, one
  with none), one that exists but is closed to the caller, one that does not exist, one
  in another region, and no answer for any other name.
\<close>

definition demo_client :: client where
  "demo_client =
     \<lparr>head_bucket = (\<lambda>b.
        if b = ''open'' \<or> b = ''hollow'' then Inr ()
        else if b = ''secret'' then Inl (ClientError (Some ''403'') ''Forbidden'')
        else if b = ''missing'' then Inl (ClientError (Some ''404'') ''Not Found'')
        else if b = ''moved'' then Inl (ClientError (Some ''301'') ''Moved Permanently'')
        else Inl (OtherException ''Could not connect to the endpoint URL'')),
      list_objects_v2 = (\<lambda>b k.
        if b = ''open''
        then Inr (Some (take k [''key0'', ''key1'', ''key2'', ''key3'', ''key4'', ''key5'',
                                ''key6'', ''key7'', ''key8'', ''key9'', ''key10'', ''key11'']))
        else if b = ''hollow'' then Inr None
        else if b = ''secret'' then Inl (ClientError (Some ''AccessDenied'') ''Access Denied'')
        else if b = ''moved'' then Inl (ClientError (Some ''PermanentRedirect'') ''Moved'')
        else Inl (OtherException ''Could not connect to the endpoint URL''))\<rparr>"

text \<open>The same service when it denies every listing.\<close>

definition denying_client :: client where
  "denying_client =
     demo_client\<lparr>list_objects_v2 :=
       (\<lambda>b k. Inl (ClientError (Some ''AccessDenied'') ''Access Denied''))\<rparr>"

definition demo_config :: config where
  "demo_config =
     \<lparr>threads = 2,
      wordlist_file = Wl_lines [''open'' @ [CHR 0x0A], [CHR 0x0A], ''missing'' @ [CHR 0x0A]],
      should_list_objects = True,
      output_file = Some ''found.txt'',
      s3 = demo_client,
      output_openable = True,
      output_writable = True\<rparr>"

definition demo_shared :: shared where
  "demo_shared = \<lparr>terminal = [], sink = [], unfinished = 1\<rparr>"

text \<open>The same run with an output file in a directory that does not exist.\<close>

definition unwritable_config :: config where
  "unwritable_config = demo_config\<lparr>output_file := Some ''/no/such/dir/found.txt'', output_openable := False\<rparr>"


text \<open>A service that ignores \<^verbatim>\<open>MaxKeys\<close> and answers with all twelve objects of a bucket.\<close>

definition generous_client :: client where
  "generous_client =
     demo_client\<lparr>list_objects_v2 :=
       (\<lambda>b k. Inr (Some [''key0'', ''key1'', ''key2'', ''key3'', ''key4'', ''key5'',
                           ''key6'', ''key7'', ''key8'', ''key9'', ''key10'', ''key11'']))\<rparr>"

text \<open>
  Two buckets open to the caller, two workers and an output file; a schedule in which
  both workers reach line 96 before either writes, and its continuation to the end of
  the run.
\<close>

definition race_client :: client where
  "race_client =
     \<lparr>head_bucket = (\<lambda>b.
        if b = ''a'' \<or> b = ''b'' then Inr ()
        else Inl (ClientError (Some ''404'') ''Not Found'')),
      list_objects_v2 = (\<lambda>b k.
        if b = ''a'' then Inr (Some (take k [''k1'', ''k2'']))
        else if b = ''b'' then Inr (Some (take k [''k3'']))
        else Inl (ClientError (Some ''NoSuchBucket'') ''Not Found''))\<rparr>"

definition race_config :: config where
  "race_config =
     \<lparr>threads = 2,
      wordlist_file = Wl_lines [''a'' @ [CHR 0x0A], ''b'' @ [CHR 0x0A]],
      should_list_objects = True,
      output_file = Some ''found.txt'',
      s3 = race_client,
      output_openable = True,
      output_writable = True\<rparr>"

definition race_prefix :: "thread list" where
  "race_prefix =
     [Coordinator, Coordinator, Coordinator,
      Worker 0, Worker 1, Worker 0, Worker 1,
      Worker 0, Worker 1, Worker 0, Worker 0, Worker 1, Worker 0]"

definition race_suffix :: "thread list" where
  "race_suffix =
     [Worker 0, Worker 0, Worker 1, Worker 0, Worker 1, Worker 1, Worker 1, Worker 1, Worker 1,
      Coordinator, Coordinator, Coordinator, Coordinator,
      Worker 0, Worker 1, Coordinator]"

section \<open>Properties of the classifier and of the listing\<close>

text \<open>
  Claim C1. For every outcome of the probe, \<^verbatim>\<open>check_bucket_existence\<close> returns a value,
  and the value is one of \<^verbatim>\<open>'FOUND'\<close>, \<^verbatim>\<open>'NOT_FOUND'\<close> and \<^verbatim>\<open>'ERROR'\<close>: a normal return
  and a client error with code 403 give \<^verbatim>\<open>'FOUND'\<close>, a client error with code 404
  gives \<^verbatim>\<open>'NOT_FOUND'\<close>, and every other client error and every other exception
  give \<^verbatim>\<open>'ERROR'\<close>.
\<close>

theorem check_bucket_existence_classifies:
  "fst (check_bucket_existence c b) \<in> {''FOUND'', ''NOT_FOUND'', ''ERROR''} \<and>
   (head_bucket c b = Inr () \<longrightarrow> fst (check_bucket_existence c b) = ''FOUND'') \<and>
   (\<forall>e. head_bucket c b = Inl (ClientError (Some ''403'') e) \<longrightarrow>
        fst (check_bucket_existence c b) = ''FOUND'') \<and>
   (\<forall>e. head_bucket c b = Inl (ClientError (Some ''404'') e) \<longrightarrow>
        fst (check_bucket_existence c b) = ''NOT_FOUND'') \<and>
   (\<forall>code e. head_bucket c b = Inl (ClientError code e) \<longrightarrow>
        code \<noteq> Some ''403'' \<longrightarrow> code \<noteq> Some ''404'' \<longrightarrow>
        fst (check_bucket_existence c b) = ''ERROR'') \<and>
   (\<forall>x. head_bucket c b = Inl x \<longrightarrow> (\<forall>code e. x \<noteq> ClientError code e) \<longrightarrow>
        fst (check_bucket_existence c b) = ''ERROR'')"
  by (auto simp: check_bucket_existence_def split: sum.splits exn.splits)

theorem check_bucket_existence_classifies_witness:
  "fst (check_bucket_existence demo_client ''open'') = ''FOUND'' \<and>
   fst (check_bucket_existence demo_client ''secret'') = ''FOUND'' \<and>
   fst (check_bucket_existence demo_client ''missing'') = ''NOT_FOUND'' \<and>
   fst (check_bucket_existence demo_client ''moved'') = ''ERROR'' \<and>
   fst (check_bucket_existence demo_client ''offline'') = ''ERROR''"
  using check_bucket_existence_classifies [of demo_client "''open''"]
        check_bucket_existence_classifies [of demo_client "''secret''"]
        check_bucket_existence_classifies [of demo_client "''missing''"]
        check_bucket_existence_classifies [of demo_client "''moved''"]
        check_bucket_existence_classifies [of demo_client "''offline''"]
  by (simp add: demo_client_def)

text \<open>
  Claim C4, as stated, fails. The claim is that the listing returns at most 10 keys
  however many objects the bucket holds. Lines 57 to 61 pass \<^verbatim>\<open>MaxKeys=10\<close> to the
  service and then collect every key of the response; nothing truncates the response.
  With a service that answers with twelve objects the listing returns twelve keys.
\<close>

theorem list_bucket_contents_exceeds_cap:
  "fst (list_bucket_contents generous_client ''open'') =
     Some [''key0'', ''key1'', ''key2'', ''key3'', ''key4'', ''key5'',
           ''key6'', ''key7'', ''key8'', ''key9'', ''key10'', ''key11''] \<and>
   10 < length (case fst (list_bucket_contents generous_client ''open'') of
                  None \<Rightarrow> [] | Some keys \<Rightarrow> keys)"
  by (simp add: list_bucket_contents_def generous_client_def)

text \<open>
  Claim C4, amended. The listing asks the service for at most 10 keys
  (\<^verbatim>\<open>MaxKeys=10\<close>) and returns the keys of the response as they are, all of them and in
  order: the empty list for a response without contents, nothing for a call that raised.
  The bound of 10 keys is the service's: the listing has at most 10 keys when the
  service honours \<^verbatim>\<open>MaxKeys\<close>.
\<close>

theorem list_bucket_contents_cap:
  "fst (list_bucket_contents c b) =
     (case list_objects_v2 c b 10 of
        Inl e \<Rightarrow> None
      | Inr None \<Rightarrow> Some []
      | Inr (Some contents) \<Rightarrow> Some contents) \<and>
   (honours_max_keys c \<longrightarrow>
      (\<forall>keys. fst (list_bucket_contents c b) = Some keys \<longrightarrow> length keys \<le> 10))"
  by (auto simp: list_bucket_contents_def honours_max_keys_def
           split: sum.splits exn.splits option.splits if_splits)

lemma demo_client_honours_max_keys: "honours_max_keys demo_client"
  by (auto simp: honours_max_keys_def demo_client_def split: if_splits)

lemma demo_list_open:
  "fst (list_bucket_contents demo_client ''open'') =
     Some [''key0'', ''key1'', ''key2'', ''key3'', ''key4'', ''key5'', ''key6'', ''key7'',
           ''key8'', ''key9'']"
  by (simp add: list_bucket_contents_def demo_client_def)

theorem list_bucket_contents_cap_witness:
  "honours_max_keys demo_client \<and>
   fst (list_bucket_contents demo_client ''open'') =
     Some [''key0'', ''key1'', ''key2'', ''key3'', ''key4'', ''key5'', ''key6'', ''key7'',
           ''key8'', ''key9''] \<and>
   length [''key0'', ''key1'', ''key2'', ''key3'', ''key4'', ''key5'', ''key6'', ''key7'',
           ''key8'', ''key9''] \<le> (10::nat) \<and>
   fst (list_bucket_contents demo_client ''hollow'') = Some [] \<and>
   fst (list_bucket_contents demo_client ''secret'') = None"
  using list_bucket_contents_cap [of demo_client "''open''"]
        list_bucket_contents_cap [of demo_client "''hollow''"]
        list_bucket_contents_cap [of demo_client "''secret''"]
        demo_client_honours_max_keys demo_list_open
  by (simp add: demo_client_def)

section \<open>Properties of the worker's treatment of one candidate\<close>










text \<open>
  Claim C6. The listing returns the empty list when the response has no contents and
  \<^verbatim>\<open>None\<close> when the call raises; it reports a denied listing on the terminal, logs
  every other failure and raises none of them. After a listing that raised, the lines
  to write for the bucket are the \<^verbatim>\<open>Bucket:\<close> line alone: no object line.
\<close>

theorem list_bucket_contents_empty_or_absent:
  "(list_objects_v2 c b 10 = Inr None \<longrightarrow>
      list_bucket_contents c b = (Some [], [Print_bucket_empty])) \<and>
   (\<forall>e. list_objects_v2 c b 10 = Inl (ClientError (Some ''AccessDenied'') e) \<longrightarrow>
      list_bucket_contents c b = (None, [Print_access_denied])) \<and>
   (\<forall>code e. list_objects_v2 c b 10 = Inl (ClientError code e) \<longrightarrow>
      code \<noteq> Some ''AccessDenied'' \<longrightarrow>
      list_bucket_contents c b = (None, [Log_warning_list b e])) \<and>
   (\<forall>x. list_objects_v2 c b 10 = Inl x \<longrightarrow> (\<forall>code e. x \<noteq> ClientError code e) \<longrightarrow>
      (\<exists>e. list_bucket_contents c b = (None, [Log_error_list b e]))) \<and>
   (\<forall>x. list_objects_v2 c b 10 = Inl x \<longrightarrow>
      fst (list_bucket_contents c b) = None \<and>
      sink_lines b (fst (list_bucket_contents c b)) = [''Bucket: '' @ b @ [CHR 0x0A]])"
proof (intro conjI allI impI)
  fix x assume x: "list_objects_v2 c b 10 = Inl x"
  then show n: "fst (list_bucket_contents c b) = None"
    by (simp add: list_bucket_contents_def split: exn.splits)
  then show "sink_lines b (fst (list_bucket_contents c b)) = [''Bucket: '' @ b @ [CHR 0x0A]]"
    by (simp add: sink_lines_def truthy_list_def)
qed (auto simp: list_bucket_contents_def split: exn.splits)

theorem list_bucket_contents_empty_or_absent_witness:
  "list_bucket_contents demo_client ''hollow'' = (Some [], [Print_bucket_empty]) \<and>
   list_bucket_contents demo_client ''secret'' = (None, [Print_access_denied]) \<and>
   (\<exists>e. list_bucket_contents demo_client ''offline'' = (None, [Log_error_list ''offline'' e])) \<and>
   list_bucket_contents demo_client ''moved'' = (None, [Log_warning_list ''moved'' ''Moved'']) \<and>
   sink_lines ''secret'' (fst (list_bucket_contents demo_client ''secret'')) =
     [''Bucket: secret'' @ [CHR 0x0A]]"
proof -
  have l: "list_objects_v2 demo_client ''hollow'' 10 = Inr None"
    "list_objects_v2 demo_client ''secret'' 10 = Inl (ClientError (Some ''AccessDenied'') ''Access Denied'')"
    "list_objects_v2 demo_client ''offline'' 10 = Inl (OtherException ''Could not connect to the endpoint URL'')"
    "list_objects_v2 demo_client ''moved'' 10 = Inl (ClientError (Some ''PermanentRedirect'') ''Moved'')"
    by (simp_all add: demo_client_def)
  show ?thesis
    using list_bucket_contents_empty_or_absent [of demo_client "''hollow''"]
          list_bucket_contents_empty_or_absent [of demo_client "''secret''"]
          list_bucket_contents_empty_or_absent [of demo_client "''offline''"]
          list_bucket_contents_empty_or_absent [of demo_client "''moved''"]
    by (simp add: l sink_lines_def truthy_list_def)
qed

text \<open>
  Claim C9. For a found bucket, the lines written to the output file are the same
  whether the listing found the bucket empty (the empty list) or the listing was denied
  or failed (\<^verbatim>\<open>None\<close>): the guard \<^verbatim>\<open>if found_objects:\<close> of line 99 is false for both,
  and in both cases the \<^verbatim>\<open>Bucket:\<close> line alone is written.
\<close>

theorem sink_record_empty_equals_absent:
  assumes "list_objects_v2 c1 b 10 = Inr None" and "list_objects_v2 c2 b 10 = Inl x"
  shows "fst (list_bucket_contents c1 b) = Some [] \<and>
         fst (list_bucket_contents c2 b) = None \<and>
         sink_lines b (fst (list_bucket_contents c1 b)) =
           sink_lines b (fst (list_bucket_contents c2 b)) \<and>
         sink_lines b (Some []) = sink_lines b None \<and>
         concat (sink_lines b (Some [])) = ''Bucket: '' @ b @ [CHR 0x0A] \<and>
         concat (sink_lines b None) = ''Bucket: '' @ b @ [CHR 0x0A]"
proof -
  have 1: "fst (list_bucket_contents c1 b) = Some []"
    using assms(1) by (simp add: list_bucket_contents_def)
  have 2: "fst (list_bucket_contents c2 b) = None"
    using assms(2) by (simp add: list_bucket_contents_def split: exn.splits)
  show ?thesis
    unfolding 1 2 by (simp add: sink_lines_def truthy_list_def)
qed

theorem sink_record_empty_equals_absent_witness:
  "fst (list_bucket_contents demo_client ''hollow'') = Some [] \<and>
   fst (list_bucket_contents denying_client ''hollow'') = None \<and>
   sink_lines ''hollow'' (fst (list_bucket_contents demo_client ''hollow'')) =
     sink_lines ''hollow'' (fst (list_bucket_contents denying_client ''hollow'')) \<and>
   concat (sink_lines ''hollow'' (Some [])) = ''Bucket: hollow'' @ [CHR 0x0A]"
proof -
  have 3: "list_objects_v2 demo_client ''hollow'' 10 = Inr None"
    and 4: "list_objects_v2 denying_client ''hollow'' 10 =
              Inl (ClientError (Some ''AccessDenied'') ''Access Denied'')"
    by (simp_all add: demo_client_def denying_client_def)
  show ?thesis
    using sink_record_empty_equals_absent [OF 3 4] by simp
qed

text \<open>
  Claim C10. The claim is that no branch of the loop body skips \<^verbatim>\<open>q.task_done()\<close>.
  The branch that opens the output file does: with an output file that cannot be
  opened, the treatment of a found bucket ends with the exception of \<^verbatim>\<open>open\<close>, before
  \<^verbatim>\<open>q.task_done()\<close> is reached.
\<close>

theorem worker_item_skips_task_done:
  "worker_item unwritable_config ''open'' demo_shared = Inl (OSError ''/no/such/dir/found.txt'')"
  by (simp add: worker_item_def examine_def check_bucket_existence_def list_bucket_contents_def
        append_result_def truthy_str_def unwritable_config_def demo_config_def demo_client_def
        demo_shared_def)

section \<open>Properties of reading the wordlist\<close>

lemma strip_decompose:
  "l = takeWhile isspace l @ strip l @ rev (takeWhile isspace (rev (dropWhile isspace l)))"
proof -
  let ?m = "dropWhile isspace l"
  have "?m = rev (takeWhile isspace (rev ?m) @ dropWhile isspace (rev ?m))"
    by (simp only: takeWhile_dropWhile_id rev_rev_ident)
  also have "\<dots> = rev (dropWhile isspace (rev ?m)) @ rev (takeWhile isspace (rev ?m))"
    by (simp only: rev_append)
  finally have "?m = strip l @ rev (takeWhile isspace (rev ?m))"
    by (simp only: strip_def)
  moreover have "l = takeWhile isspace l @ ?m" by simp
  ultimately show ?thesis by simp
qed

lemma strip_empty_iff: "strip l = [] \<longleftrightarrow> list_all isspace l"
proof
  assume e: "strip l = []"
  have "list_all isspace (takeWhile isspace l)"
    by (simp add: list_all_iff) (meson set_takeWhileD)
  moreover have "list_all isspace (rev (takeWhile isspace (rev (dropWhile isspace l))))"
    by (simp add: list_all_iff) (meson set_takeWhileD)
  ultimately have "list_all isspace (takeWhile isspace l @ strip l @
      rev (takeWhile isspace (rev (dropWhile isspace l))))"
    using e by simp
  then show "list_all isspace l" using strip_decompose [of l] by simp
next
  assume "list_all isspace l"
  then have "dropWhile isspace l = []" by (simp add: list_all_iff)
  then show "strip l = []" by (simp del: dropWhile_eq_Nil_conv add: strip_def)
qed

lemma strip_ends:
  assumes "strip l \<noteq> []"
  shows "\<not> isspace (hd (strip l))" and "\<not> isspace (last (strip l))"
proof -
  let ?m = "dropWhile isspace l"
  let ?d = "dropWhile isspace (rev ?m)"
  from assms have d: "?d \<noteq> []" by (simp add: strip_def)
  have m: "?m \<noteq> []"
  proof
    assume "?m = []"
    then have "?d = []" by (simp del: dropWhile_eq_Nil_conv)
    with d show False by simp
  qed
  have "\<not> isspace (hd ?d)" using d by (rule hd_dropWhile)
  then show "\<not> isspace (last (strip l))" using d by (simp add: strip_def last_rev)
  have "rev ?m = takeWhile isspace (rev ?m) @ ?d" by simp
  then have "last (rev ?m) = last ?d" using d by (metis last_appendR)
  then have "hd ?m = last ?d" using m by (simp add: last_rev)
  moreover have "\<not> isspace (hd ?m)" using m by (rule hd_dropWhile)
  ultimately show "\<not> isspace (hd (strip l))" using d by (simp add: strip_def hd_rev)
qed

lemma enqueue_wordlist_append: "enqueue_wordlist ls q = q @ map Some (candidates ls)"
  by (induction ls arbitrary: q) (simp_all add: candidates_def Let_def)

lemma candidates_filter_map:
  "candidates ls = map strip (filter (\<lambda>l. \<not> list_all isspace l) ls)"
  by (induction ls) (simp_all add: candidates_def strip_empty_iff)

lemma count_candidates:
  "b \<noteq> [] \<Longrightarrow> count_list (candidates ls) b = length (filter (\<lambda>l. strip l = b) ls)"
  by (induction ls) (auto simp: candidates_def)

text \<open>
  Claim C7. The loop over the wordlist puts on the queue, in order and after the items
  already there, the stripped form of every line that is not made of whitespace only.
  Stripping removes whitespace at both ends and nothing else, every name put on the queue
  is non-empty and neither starts nor ends with whitespace, and a name is put once for
  every line that strips to it: duplicates are kept.
\<close>

theorem enqueue_wordlist_trims_and_keeps_duplicates:
  "enqueue_wordlist ls q = q @ map Some (candidates ls) \<and>
   candidates ls = map strip (filter (\<lambda>l. \<not> list_all isspace l) ls) \<and>
   (\<forall>l. \<exists>pre post. l = pre @ strip l @ post \<and> list_all isspace pre \<and> list_all isspace post) \<and>
   (\<forall>b \<in> set (candidates ls). b \<noteq> [] \<and> \<not> isspace (hd b) \<and> \<not> isspace (last b)) \<and>
   (\<forall>b. b \<noteq> [] \<longrightarrow> count_list (candidates ls) b = length (filter (\<lambda>l. strip l = b) ls))"
proof (intro conjI allI ballI impI)
  show "enqueue_wordlist ls q = q @ map Some (candidates ls)"
    by (rule enqueue_wordlist_append)
  show "candidates ls = map strip (filter (\<lambda>l. \<not> list_all isspace l) ls)"
    by (rule candidates_filter_map)
next
  fix l
  have "list_all isspace (takeWhile isspace l)"
    by (simp add: list_all_iff) (meson set_takeWhileD)
  moreover have "list_all isspace (rev (takeWhile isspace (rev (dropWhile isspace l))))"
    by (simp add: list_all_iff) (meson set_takeWhileD)
  ultimately show "\<exists>pre post. l = pre @ strip l @ post \<and> list_all isspace pre \<and> list_all isspace post"
    using strip_decompose [of l] by blast
next
  fix b assume "b \<in> set (candidates ls)"
  then obtain l where "b = strip l" "strip l \<noteq> []" by (auto simp: candidates_def)
  then show "b \<noteq> []" "\<not> isspace (hd b)" "\<not> isspace (last b)"
    using strip_ends [of l] by simp_all
next
  fix b :: string assume "b \<noteq> []"
  then show "count_list (candidates ls) b = length (filter (\<lambda>l. strip l = b) ls)"
    by (rule count_candidates)
qed

theorem enqueue_wordlist_trims_and_keeps_duplicates_witness:
  "enqueue_wordlist [''mybucket-test'' @ [CHR 0x0A], [CHR 0x0A], ''  '' @ [CHR 0x0A],
                     '' dup '' @ [CHR 0x0A], ''dup''] []
     = [Some ''mybucket-test'', Some ''dup'', Some ''dup'']"
  using enqueue_wordlist_trims_and_keeps_duplicates
    [of "[''mybucket-test'' @ [CHR 0x0A], [CHR 0x0A], ''  '' @ [CHR 0x0A],
          '' dup '' @ [CHR 0x0A], ''dup'']" "[]"]
  by (simp add: strip_def isspace_def)

section \<open>The steps of the interleaved run, case by case\<close>

lemma worker_step_cases [consumes 1, case_names blocked get_sentinel get_item probe_lock
    probe_ack acquire open_ok open_fail write_fail do_write do_close ack ack_fail]:
  assumes "i < length (workers s)"
  obtains
    "worker_step cfg i s = s"
  | q where "workers s ! i = W_get" "queue s = None # q"
      "worker_step cfg i s =
         s\<lparr>queue := q, workers := (workers s)[i := W_exited], hist := hist s @ [Get i None]\<rparr>"
  | b q where "workers s ! i = W_get" "queue s = Some b # q"
      "worker_step cfg i s =
         s\<lparr>queue := q, workers := (workers s)[i := W_got b],
           hist := hist s @ [Get i (Some b)]\<rparr>"
  | b objs evs where "workers s ! i = W_got b" "examine cfg b = (''FOUND'', objs, evs)"
      "truthy_str (output_file cfg)"
      "worker_step cfg i s =
         s\<lparr>terminal := terminal s @ evs, workers := (workers s)[i := W_lock b objs]\<rparr>"
  | b st objs evs where "workers s ! i = W_got b" "examine cfg b = (st, objs, evs)"
      "\<not> (st = ''FOUND'' \<and> truthy_str (output_file cfg))"
      "worker_step cfg i s =
         s\<lparr>terminal := terminal s @ evs, workers := (workers s)[i := W_ack b]\<rparr>"
  | b objs where "workers s ! i = W_lock b objs" "lock s = None"
      "worker_step cfg i s =
         s\<lparr>workers := (workers s)[i := W_open b objs], lock := Some i,
           hist := hist s @ [Acquire i]\<rparr>"
  | b objs where "workers s ! i = W_open b objs" "output_openable cfg"
      "worker_step cfg i s = s\<lparr>workers := (workers s)[i := W_write b objs 0]\<rparr>"
  | b objs e where "workers s ! i = W_open b objs" "\<not> output_openable cfg"
      "worker_step cfg i s =
         s\<lparr>workers := (workers s)[i := W_crashed e], lock := None,
           hist := hist s @ [Release i]\<rparr>"
  | b objs n e where "workers s ! i = W_write b objs n" "\<not> output_writable cfg"
      "worker_step cfg i s =
         s\<lparr>workers := (workers s)[i := W_crashed e], lock := None,
           hist := hist s @ [Release i]\<rparr>"
  | b objs n where "workers s ! i = W_write b objs n"
      "output_writable cfg \<and> n < length (sink_lines b objs)"
      "worker_step cfg i s =
         s\<lparr>sink := sink s @ sink_lines b objs ! n,
           workers := (workers s)[i := W_write b objs (Suc n)],
           hist := hist s @ [Write i (sink_lines b objs ! n)]\<rparr>"
  | b objs n where "workers s ! i = W_write b objs n"
      "output_writable cfg \<and> \<not> n < length (sink_lines b objs)"
      "worker_step cfg i s =
         s\<lparr>workers := (workers s)[i := W_ack b], lock := None, hist := hist s @ [Release i]\<rparr>"
  | b n where "workers s ! i = W_ack b" "unfinished s = Suc n"
      "worker_step cfg i s =
         s\<lparr>unfinished := n, workers := (workers s)[i := W_get],
           hist := hist s @ [Task_done i]\<rparr>"
  | b e where "workers s ! i = W_ack b" "unfinished s = 0"
      "worker_step cfg i s = s\<lparr>workers := (workers s)[i := W_crashed e]\<rparr>"
proof (cases "workers s ! i")
  case W_get
  show ?thesis
  proof (cases "queue s")
    case Nil
    with W_get have "worker_step cfg i s = s" by (simp add: worker_step_def)
    then show ?thesis by (rule that(1))
  next
    case (Cons x q)
    show ?thesis
    proof (cases x)
      case None
      with W_get Cons show ?thesis by (intro that(2) [of q]) (simp_all add: worker_step_def)
    next
      case (Some b)
      with W_get Cons show ?thesis by (intro that(3) [of b q]) (simp_all add: worker_step_def)
    qed
  qed
next
  case (W_got b)
  obtain st objs evs where ex: "examine cfg b = (st, objs, evs)"
    by (cases "examine cfg b") auto
  show ?thesis
  proof (cases "st = ''FOUND'' \<and> truthy_str (output_file cfg)")
    case True
    with W_got ex show ?thesis
      by (intro that(4) [of b objs evs]) (simp_all add: worker_step_def)
  next
    case False
    with W_got ex show ?thesis
      by (intro that(5) [of b st objs evs]) (auto simp: worker_step_def)
  qed
next
  case (W_lock b objs)
  show ?thesis
  proof (cases "lock s = None")
    case True
    with W_lock show ?thesis by (intro that(6) [of b objs]) (simp_all add: worker_step_def)
  next
    case False
    with W_lock have "worker_step cfg i s = s" by (auto simp: worker_step_def)
    then show ?thesis by (rule that(1))
  qed
next
  case (W_open b objs)
  show ?thesis
  proof (cases "output_openable cfg")
    case True
    with W_open show ?thesis by (intro that(7) [of b objs]) (simp_all add: worker_step_def)
  next
    case False
    with W_open show ?thesis
      by (intro that(8) [of b objs "OSError (case output_file cfg of None \<Rightarrow> [] | Some path \<Rightarrow> path)"])
         (simp_all add: worker_step_def)
  qed
next
  case (W_write b objs n)
  show ?thesis
  proof (cases "output_writable cfg")
    case False
    with W_write show ?thesis
      by (intro that(9) [of b objs n "OSError ''No space left on device''"])
         (simp_all add: worker_step_def)
  next
    case writable: True
    show ?thesis
    proof (cases "n < length (sink_lines b objs)")
      case True
      with W_write writable show ?thesis
        by (intro that(10) [of b objs n]) (simp_all add: worker_step_def)
    next
      case False
      with W_write writable show ?thesis
        by (intro that(11) [of b objs n]) (simp_all add: worker_step_def)
    qed
  qed
next
  case (W_ack b)
  show ?thesis
  proof (cases "unfinished s")
    case 0
    with W_ack show ?thesis
      by (intro that(13) [of b "ValueError ''task_done() called too many times''"])
         (simp_all add: worker_step_def task_done_def)
  next
    case (Suc n)
    with W_ack show ?thesis
      by (intro that(12) [of b n]) (simp_all add: worker_step_def task_done_def)
  qed
next
  case W_exited
  then have "worker_step cfg i s = s" by (simp add: worker_step_def)
  then show ?thesis by (rule that(1))
next
  case (W_crashed e)
  then have "worker_step cfg i s = s" by (simp add: worker_step_def)
  then show ?thesis by (rule that(1))
qed

lemma main_step_cases [case_names idle put skip eof_join eof_missing eof_broken joined
    sentinel sentinels_done threads_joined]:
  obtains
    "main_step cfg s = s"
  | l rest where "coord s = C_read (l # rest)" "strip l \<noteq> []"
      "main_step cfg s =
         s\<lparr>unfinished := unfinished s + 1, coord := C_read rest,
           queue := queue s @ [Some (strip l)], hist := hist s @ [Put (Some (strip l))]\<rparr>"
  | l rest where "coord s = C_read (l # rest)" "strip l = []"
      "main_step cfg s = s\<lparr>coord := C_read rest\<rparr>"
  | ls where "coord s = C_read []" "wordlist_file cfg = Wl_lines ls"
      "main_step cfg s = s\<lparr>coord := C_join\<rparr>"
  | "coord s = C_read []" "wordlist_file cfg = Wl_missing"
      "main_step cfg s =
         s\<lparr>terminal := terminal s @ [Log_error_wordlist_missing],
           coord := C_sentinels (nat (threads cfg))\<rparr>"
  | ls where "coord s = C_read []" "wordlist_file cfg = Wl_broken ls"
      "main_step cfg s =
         s\<lparr>terminal := terminal s @ [Log_error_setup],
           coord := C_sentinels (nat (threads cfg))\<rparr>"
  | "coord s = C_join" "unfinished s = 0"
      "main_step cfg s =
         s\<lparr>coord := C_sentinels (nat (threads cfg)), hist := hist s @ [Join_returned]\<rparr>"
  | k where "coord s = C_sentinels (Suc k)"
      "main_step cfg s =
         s\<lparr>unfinished := unfinished s + 1, coord := C_sentinels k,
           queue := queue s @ [None], hist := hist s @ [Put None]\<rparr>"
  | "coord s = C_sentinels 0" "main_step cfg s = s\<lparr>coord := C_join_threads\<rparr>"
  | "coord s = C_join_threads" "list_all terminated (workers s)"
      "main_step cfg s =
         s\<lparr>terminal := terminal s @ [Log_info_complete], coord := C_finished\<rparr>"
proof (cases "coord s")
  case (C_read ls)
  show ?thesis
  proof (cases ls)
    case Nil
    show ?thesis
    proof (cases "wordlist_file cfg")
      case Wl_missing
      with C_read Nil show ?thesis by (intro that(5)) (simp_all add: main_step_def)
    next
      case (Wl_lines ls')
      with C_read Nil show ?thesis by (intro that(4) [of ls']) (simp_all add: main_step_def)
    next
      case (Wl_broken ls')
      with C_read Nil show ?thesis by (intro that(6) [of ls']) (simp_all add: main_step_def)
    qed
  next
    case (Cons l rest)
    show ?thesis
    proof (cases "strip l = []")
      case True
      with C_read Cons show ?thesis
        by (intro that(3) [of l rest]) (simp_all add: main_step_def)
    next
      case False
      with C_read Cons show ?thesis
        by (intro that(2) [of l rest]) (simp_all add: main_step_def Let_def)
    qed
  qed
next
  case C_join
  show ?thesis
  proof (cases "unfinished s = 0")
    case True
    with C_join show ?thesis by (intro that(7)) (simp_all add: main_step_def)
  next
    case False
    with C_join have "main_step cfg s = s" by (simp add: main_step_def)
    then show ?thesis by (rule that(1))
  qed
next
  case (C_sentinels k)
  show ?thesis
  proof (cases k)
    case 0
    with C_sentinels show ?thesis by (intro that(9)) (simp_all add: main_step_def)
  next
    case (Suc k')
    with C_sentinels show ?thesis by (intro that(8) [of k']) (simp_all add: main_step_def)
  qed
next
  case C_join_threads
  show ?thesis
  proof (cases "list_all terminated (workers s)")
    case True
    with C_join_threads show ?thesis by (intro that(10)) (simp_all add: main_step_def)
  next
    case False
    with C_join_threads have "main_step cfg s = s" by (simp add: main_step_def)
    then show ?thesis by (rule that(1))
  qed
next
  case C_finished
  then have "main_step cfg s = s" by (simp add: main_step_def)
  then show ?thesis by (rule that(1))
qed

section \<open>The lock and the output file\<close>

lemma in_critical_simps [simp]:
  "\<not> in_critical W_get" "\<not> in_critical (W_got b)" "\<not> in_critical (W_lock b objs)"
  "in_critical (W_open b objs)" "in_critical (W_write b objs n)" "\<not> in_critical (W_ack b)"
  "\<not> in_critical W_exited" "\<not> in_critical (W_crashed e)"
  by (simp_all add: in_critical_def)

lemma lock_inv_init: "lock_inv (init cfg content)"
  by (simp add: lock_inv_def init_def)

lemma lock_inv_main_step: "lock_inv s \<Longrightarrow> lock_inv (main_step cfg s)"
  by (cases rule: main_step_cases [of cfg s]) (simp_all add: lock_inv_def)

lemma lock_inv_update:
  assumes "lock_inv s" and "i < length (workers s)"
    and "in_critical w \<longleftrightarrow> l = Some i"
    and "l = lock s \<or> l = Some i \<or> (l = None \<and> lock s = Some i)"
    and "l = Some i \<longrightarrow> lock s = None \<or> lock s = Some i"
  shows "(\<forall>k<length (workers s). in_critical ((workers s)[i := w] ! k) \<longleftrightarrow> l = Some k) \<and>
         (\<forall>j. l = Some j \<longrightarrow> j < length (workers s))"
  using assms by (auto simp: lock_inv_def nth_list_update)

lemma critical_holds_lock:
  "lock_inv s \<Longrightarrow> i < length (workers s) \<Longrightarrow> in_critical (workers s ! i) \<Longrightarrow> lock s = Some i"
  by (auto simp: lock_inv_def)

lemma not_critical_other_lock:
  "lock_inv s \<Longrightarrow> i < length (workers s) \<Longrightarrow> \<not> in_critical (workers s ! i) \<Longrightarrow> lock s \<noteq> Some i"
  by (auto simp: lock_inv_def)

lemma lock_inv_worker_step:
  assumes inv: "lock_inv s" and i: "i < length (workers s)"
  shows "lock_inv (worker_step cfg i s)"
  using i
proof (cases rule: worker_step_cases [where cfg = cfg])
  case blocked
  then show ?thesis using inv by simp
next
  case (get_sentinel q)
  then show ?thesis
    using lock_inv_update [OF inv i, of W_exited "lock s"] not_critical_other_lock [OF inv i]
    by (simp add: lock_inv_def)
next
  case (get_item b q)
  then show ?thesis
    using lock_inv_update [OF inv i, of "W_got b" "lock s"] not_critical_other_lock [OF inv i]
    by (simp add: lock_inv_def)
next
  case (probe_lock b objs evs)
  then show ?thesis
    using lock_inv_update [OF inv i, of "W_lock b objs" "lock s"] not_critical_other_lock [OF inv i]
    by (simp add: lock_inv_def)
next
  case (probe_ack b st objs evs)
  then show ?thesis
    using lock_inv_update [OF inv i, of "W_ack b" "lock s"] not_critical_other_lock [OF inv i]
    by (simp add: lock_inv_def)
next
  case (acquire b objs)
  then show ?thesis
    using lock_inv_update [OF inv i, of "W_open b objs" "Some i"]
    by (simp add: lock_inv_def)
next
  case (open_ok b objs)
  then show ?thesis
    using lock_inv_update [OF inv i, of "W_write b objs 0" "lock s"] critical_holds_lock [OF inv i]
    by (simp add: lock_inv_def)
next
  case (open_fail b objs e)
  then show ?thesis
    using lock_inv_update [OF inv i, of "W_crashed e" None] critical_holds_lock [OF inv i]
    by (simp add: lock_inv_def)
next
  case (write_fail b objs n e)
  then show ?thesis
    using lock_inv_update [OF inv i, of "W_crashed e" None] critical_holds_lock [OF inv i]
    by (simp add: lock_inv_def)
next
  case (do_write b objs n)
  then show ?thesis
    using lock_inv_update [OF inv i, of "W_write b objs (Suc n)" "lock s"]
      critical_holds_lock [OF inv i]
    by (simp add: lock_inv_def)
next
  case (do_close b objs n)
  then show ?thesis
    using lock_inv_update [OF inv i, of "W_ack b" None] critical_holds_lock [OF inv i]
    by (simp add: lock_inv_def)
next
  case (ack b n)
  then show ?thesis
    using lock_inv_update [OF inv i, of W_get "lock s"] not_critical_other_lock [OF inv i]
    by (simp add: lock_inv_def)
next
  case (ack_fail b e)
  then show ?thesis
    using lock_inv_update [OF inv i, of "W_crashed e" "lock s"] not_critical_other_lock [OF inv i]
    by (simp add: lock_inv_def)
qed

lemma writes_snoc [simp]:
  "writes (h @ [a]) = writes h @ (case a of Write i chunk \<Rightarrow> [(i, chunk)] | _ \<Rightarrow> [])"
  by (simp add: writes_def)

lemma writes_Nil [simp]: "writes [] = []"
  by (simp add: writes_def)

lemma pending_None [simp]: "pending None ws = []"
  by (simp add: pending_def)

lemma pending_update_self:
  "i < length ws \<Longrightarrow> pending (Some i) (ws[i := w]) =
     (case w of W_write b objs n \<Rightarrow> map (Pair i) (take n (sink_lines b objs)) | _ \<Rightarrow> [])"
  by (simp add: pending_def)

lemma pending_self:
  "pending (Some i) ws =
     (case ws ! i of W_write b objs n \<Rightarrow> map (Pair i) (take n (sink_lines b objs)) | _ \<Rightarrow> [])"
  by (simp add: pending_def)

lemma pending_not_critical:
  assumes "lock_inv s" and "i < length (workers s)" and "\<not> in_critical (workers s ! i)"
  shows "pending (lock s) ((workers s)[i := w]) = pending (lock s) (workers s)"
proof (cases "lock s")
  case None
  then show ?thesis by simp
next
  case (Some j)
  with assms have "i \<noteq> j" by (auto simp: lock_inv_def)
  then show ?thesis using Some by (simp add: pending_def)
qed

lemma write_inv_init: "write_inv cfg content (init cfg content)"
  by (simp add: write_inv_def init_def exI [of _ "[]"])

lemma write_inv_main_step: "write_inv cfg content s \<Longrightarrow> write_inv cfg content (main_step cfg s)"
  by (cases rule: main_step_cases [of cfg s]) (simp_all add: write_inv_def)

lemma write_inv_worker_step:
  assumes w: "write_inv cfg content s" and inv: "lock_inv s" and i: "i < length (workers s)"
  shows "write_inv cfg content (worker_step cfg i s)"
  using i
proof (cases rule: worker_step_cases [where cfg = cfg])
  case blocked
  then show ?thesis using w by simp
next
  case (get_sentinel q)
  then show ?thesis using w pending_not_critical [OF inv i, of W_exited]
    by (simp add: write_inv_def)
next
  case (get_item b q)
  then show ?thesis using w pending_not_critical [OF inv i, of "W_got b"]
    by (simp add: write_inv_def)
next
  case (probe_lock b objs evs)
  then show ?thesis using w pending_not_critical [OF inv i, of "W_lock b objs"]
    by (simp add: write_inv_def)
next
  case (probe_ack b st objs evs)
  then show ?thesis using w pending_not_critical [OF inv i, of "W_ack b"]
    by (simp add: write_inv_def)
next
  case (acquire b objs)
  then show ?thesis using w i by (simp add: write_inv_def pending_update_self)
next
  case (open_ok b objs)
  then have "lock s = Some i" using critical_holds_lock [OF inv i] by simp
  then show ?thesis using w i open_ok by (simp add: write_inv_def pending_update_self pending_self)
next
  case (open_fail b objs e)
  then have "lock s = Some i" using critical_holds_lock [OF inv i] by simp
  then show ?thesis using w i open_fail by (simp add: write_inv_def pending_self)
next
  case (write_fail b objs n e)
  then have "lock s = Some i" using critical_holds_lock [OF inv i] by simp
  then show ?thesis using w i write_fail by (auto simp: write_inv_def)
next
  case (do_write b objs n)
  then have "lock s = Some i" using critical_holds_lock [OF inv i] by simp
  then show ?thesis using w i do_write
    by (simp add: write_inv_def pending_update_self pending_self take_Suc_conv_app_nth)
next
  case (do_close b objs n)
  then have l: "lock s = Some i" using critical_holds_lock [OF inv i] by simp
  from w obtain sessions where
    "writes (hist s) = concat (map block sessions) @ map (Pair i) (take n (sink_lines b objs))"
    using l do_close by (auto simp: write_inv_def pending_self)
  then have "writes (hist s) = concat (map block (sessions @ [(i, b, objs)]))"
    using do_close by (simp add: block_def)
  then have "\<exists>sessions. writes (hist s) = concat (map block sessions)" by blast
  then show ?thesis using w do_close by (simp add: write_inv_def)
next
  case (ack b n)
  then show ?thesis using w pending_not_critical [OF inv i, of W_get]
    by (simp add: write_inv_def)
next
  case (ack_fail b e)
  then show ?thesis using w pending_not_critical [OF inv i, of "W_crashed e"]
    by (simp add: write_inv_def)
qed

lemma sink_invs_step:
  assumes "lock_inv s" and "write_inv cfg content s"
  shows "lock_inv (step cfg t s) \<and> write_inv cfg content (step cfg t s)"
proof (cases t)
  case Coordinator
  then show ?thesis
    using assms by (simp add: step_def lock_inv_main_step write_inv_main_step)
next
  case (Worker i)
  then show ?thesis
    using assms by (simp add: step_def lock_inv_worker_step write_inv_worker_step)
qed

lemma sink_invs_run:
  "lock_inv s \<Longrightarrow> write_inv cfg content s \<Longrightarrow>
   lock_inv (run cfg sched s) \<and> write_inv cfg content (run cfg sched s)"
proof (induction sched arbitrary: s)
  case Nil
  then show ?case by simp
next
  case (Cons t sched)
  then show ?case using sink_invs_step [of s cfg content t] by simp
qed

lemmas race_defs = race_config_def race_prefix_def race_suffix_def init_def step_def main_step_def
      worker_step_def race_client_def examine_def check_bucket_existence_def
      list_bucket_contents_def sink_lines_def truthy_str_def truthy_list_def strip_def
      isspace_def Let_def task_done_def terminated_def numeral_2_eq_2

lemma race_midway:
  "run race_config race_prefix (init race_config []) =
     \<lparr>terminal = [Print_found ''a'', Print_objects_found, Print_object ''k1'', Print_object ''k2'',
                  Print_found ''b'', Print_objects_found, Print_object ''k3''],
      sink = ''Bucket: a'' @ [CHR 0x0A] @ ''  - Object: k1'' @ [CHR 0x0A],
      unfinished = 2,
      coord = C_join,
      queue = [],
      workers = [W_write ''a'' (Some [''k1'', ''k2'']) 2, W_lock ''b'' (Some [''k3''])],
      lock = Some 0,
      hist = [Put (Some ''a''), Put (Some ''b''), Get 0 (Some ''a''), Get 1 (Some ''b''),
              Acquire 0, Write 0 (''Bucket: a'' @ [CHR 0x0A]),
              Write 0 (''  - Object: k1'' @ [CHR 0x0A])]\<rparr>"
  by (simp add: race_defs)


lemma race_end:
  "run race_config (race_prefix @ race_suffix) (init race_config []) =
     \<lparr>terminal = [Print_found ''a'', Print_objects_found, Print_object ''k1'', Print_object ''k2'',
                  Print_found ''b'', Print_objects_found, Print_object ''k3'', Log_info_complete],
      sink = ''Bucket: a'' @ [CHR 0x0A] @ ''  - Object: k1'' @ [CHR 0x0A] @
             ''  - Object: k2'' @ [CHR 0x0A] @ ''Bucket: b'' @ [CHR 0x0A] @
             ''  - Object: k3'' @ [CHR 0x0A],
      unfinished = 2,
      coord = C_finished,
      queue = [],
      workers = [W_exited, W_exited],
      lock = None,
      hist = [Put (Some ''a''), Put (Some ''b''), Get 0 (Some ''a''), Get 1 (Some ''b''),
              Acquire 0, Write 0 (''Bucket: a'' @ [CHR 0x0A]),
              Write 0 (''  - Object: k1'' @ [CHR 0x0A]),
              Write 0 (''  - Object: k2'' @ [CHR 0x0A]), Release 0, Acquire 1, Task_done 0,
              Write 1 (''Bucket: b'' @ [CHR 0x0A]), Write 1 (''  - Object: k3'' @ [CHR 0x0A]),
              Release 1, Task_done 1, Join_returned, Put None, Put None,
              Get 0 None, Get 1 None]\<rparr>"
  by (simp add: race_defs)

text \<open>
  Claim C3. In every state that the coordinator and the workers reach, under every
  schedule: at most one worker is between the opening and the closing of the output
  file, and it is the worker that holds the lock, so the lock wraps the whole of
  open, write and close; the calls of \<^verbatim>\<open>f.write\<close> made so far are a sequence of whole
  blocks, each the \<^verbatim>\<open>Bucket:\<close> line and the \<^verbatim>\<open>Object:\<close> lines of one bucket written
  by one worker, followed by the lines that the holder of the lock has written so far;
  and the file holds its first content followed by these writes in this order.
\<close>

theorem sink_blocks_contiguous:
  assumes "s = run cfg sched (init cfg content)"
  shows "(\<forall>i<length (workers s). \<forall>j<length (workers s).
            in_critical (workers s ! i) \<longrightarrow> in_critical (workers s ! j) \<longrightarrow> i = j) \<and>
         (\<forall>i<length (workers s). in_critical (workers s ! i) \<longleftrightarrow> lock s = Some i) \<and>
         (\<exists>sessions. writes (hist s) = concat (map block sessions) @ pending (lock s) (workers s)) \<and>
         sink s = content @ concat (map snd (writes (hist s)))"
proof -
  have "lock_inv s \<and> write_inv cfg content s"
    unfolding assms by (rule sink_invs_run [OF lock_inv_init write_inv_init])
  then show ?thesis by (auto simp: lock_inv_def write_inv_def)
qed

theorem sink_blocks_contiguous_witness:
  "in_critical (workers (run race_config race_prefix (init race_config [])) ! 0) \<and>
   \<not> in_critical (workers (run race_config race_prefix (init race_config [])) ! 1) \<and>
   lock (run race_config race_prefix (init race_config [])) = Some 0 \<and>
   (\<exists>sessions. writes (hist (run race_config race_prefix (init race_config []))) =
      concat (map block sessions) @
      [(0, ''Bucket: a'' @ [CHR 0x0A]), (0, ''  - Object: k1'' @ [CHR 0x0A])]) \<and>
   (\<exists>sessions.
      writes (hist (run race_config (race_prefix @ race_suffix) (init race_config []))) =
      concat (map block sessions)) \<and>
   sink (run race_config (race_prefix @ race_suffix) (init race_config [])) =
     ''Bucket: a'' @ [CHR 0x0A] @ ''  - Object: k1'' @ [CHR 0x0A] @
     ''  - Object: k2'' @ [CHR 0x0A] @ ''Bucket: b'' @ [CHR 0x0A] @
     ''  - Object: k3'' @ [CHR 0x0A]"
  using sink_blocks_contiguous [OF refl, of race_config race_prefix "[]"]
        sink_blocks_contiguous [OF refl, of race_config "race_prefix @ race_suffix" "[]"]
  by (simp add: race_midway race_end pending_def sink_lines_def truthy_list_def)

end
